theory Spec2Isabelle
  imports Main "HOL-Library.Word" "HOL-Library.Multiset"
begin

unbundle bit_operations_syntax

section \<open>libuart/arm64/tmfifo.c: virtual console over the RSHIM interface\<close>

type_synonym u64 = "64 word"

definition TMFIFO_MSG_CONSOLE :: "8 word" where
  "TMFIFO_MSG_CONSOLE = 3"

definition TILE_TO_HOST_DATA :: nat where
  "TILE_TO_HOST_DATA = 0xa40"

definition TILE_TO_HOST_STATUS :: nat where
  "TILE_TO_HOST_STATUS = 0xa48"

definition TILE_TO_HOST_CTL :: nat where
  "TILE_TO_HOST_CTL = 0xa50"

definition SCRATCHPAD1 :: nat where
  "SCRATCHPAD1 = 0xc20"

definition FIFO_LENGTH :: nat where
  "FIFO_LENGTH = 256"

text \<open>
  \<^verbatim>\<open>tmfifo_msg_header_t\<close> is a union of eight bytes (type, len_hi, len_lo and five
  reserved bytes) with one 64-bit word. The file is built for arm64, which is little
  endian: byte \<open>i\<close> of the struct is bits \<open>8 * i\<close> to \<open>8 * i + 7\<close> of \<open>data\<close>.
\<close>

record tmfifo_msg_header_t =
  msg_type :: "8 word"
  len_hi :: "8 word"
  len_lo :: "8 word"
  unused :: "8 word list"

fun le_bytes :: "8 word list \<Rightarrow> u64" where
  "le_bytes [] = 0"
| "le_bytes (b # bs) = ucast b OR push_bit 8 (le_bytes bs)"

definition header_data :: "tmfifo_msg_header_t \<Rightarrow> u64" where
  "header_data h = le_bytes ([msg_type h, len_hi h, len_lo h] @ unused h)"

definition tx_header :: tmfifo_msg_header_t where
  "tx_header = \<lparr>msg_type = TMFIFO_MSG_CONSOLE, len_hi = 0, len_lo = 1,
                 unused = [0, 0, 0, 0, 0]\<rparr>"

text \<open>
  The register window behind \<^verbatim>\<open>dev->io\<close>. The accessors \<^verbatim>\<open>io_read64\<close> and
  \<^verbatim>\<open>io_write64\<close> come from \<^verbatim>\<open>io.h\<close>; the registers are device registers, so two
  reads of one register may differ. \<open>regs d off k\<close> is the value that the read number
  \<open>k\<close> (counting every read made so far) returns at offset \<open>off\<close>; it is arbitrary,
  so it covers every behaviour of the device. The writes are logged oldest first.
\<close>

record io_t =
  regs :: "nat \<Rightarrow> nat \<Rightarrow> u64"
  nreads :: nat
  writes :: "(nat \<times> u64) list"

definition io_read64 :: "io_t \<Rightarrow> nat \<Rightarrow> u64 \<times> io_t" where
  "io_read64 d off = (regs d off (nreads d), d\<lparr>nreads := nreads d + 1\<rparr>)"

definition io_write64 :: "io_t \<Rightarrow> nat \<Rightarrow> u64 \<Rightarrow> io_t" where
  "io_write64 d off v = d\<lparr>writes := writes d @ [(off, v)]\<rparr>"

definition tmfifo_connected :: "io_t \<Rightarrow> bool \<times> io_t" where
  "tmfifo_connected d = (let (v, d') = io_read64 d SCRATCHPAD1 in (v \<noteq> 0, d'))"

definition tmfifo_full :: "io_t \<Rightarrow> bool \<times> io_t" where
  "tmfifo_full d =
     (let (v, d') = io_read64 d TILE_TO_HOST_STATUS in (v > of_nat (FIFO_LENGTH - 2), d'))"

text \<open>
  The character is a plain \<^verbatim>\<open>char\<close>, unsigned on arm64, converted to the 64-bit
  argument of \<^verbatim>\<open>io_write64\<close>.
\<close>

definition char_to_u64 :: "8 word \<Rightarrow> u64" where
  "char_to_u64 c = ucast c"

text \<open>The \<^verbatim>\<open>for\<close> loop of \<^verbatim>\<open>tmfifo_putc\<close>, on its 16-bit counter \<^verbatim>\<open>timeout\<close>: one
  poll of the status register for each value from \<open>0xffff\<close> down to \<open>1\<close>.\<close>

function tmfifo_putc_loop :: "16 word \<Rightarrow> io_t \<Rightarrow> 8 word \<Rightarrow> io_t" where
  "tmfifo_putc_loop timeout d c =
     (if timeout > 0 then
        (let (full, d') = tmfifo_full d in
         if \<not> full then
           io_write64 (io_write64 d' TILE_TO_HOST_DATA (header_data tx_header))
             TILE_TO_HOST_DATA (char_to_u64 c)
         else tmfifo_putc_loop (timeout - 1) d' c)
      else d)"
  by pat_completeness auto
termination
  by (relation "measure (\<lambda>(timeout, d, c). unat timeout)")
     (auto simp: unat_minus_one word_greater_zero_iff unat_gt_0)

definition tmfifo_putc :: "io_t \<Rightarrow> 8 word \<Rightarrow> io_t" where
  "tmfifo_putc d c =
     (let (connected, d') = tmfifo_connected d in
      if \<not> connected then d' else tmfifo_putc_loop 0xffff d' c)"

section \<open>log.c: the logging hub\<close>

text \<open>
  The status codes and the syslog levels come from headers; only that the codes differ
  and that the levels are \<open>0\<close> (LOG_EMERG) to \<open>7\<close> (LOG_DEBUG) matters here.
\<close>

datatype status = ERR_SUCCESS | ERR_INVALID_PARAMETER | ERR_OUT_OF_RESOURCES

definition CONSOLES_MAX_NR :: nat where
  "CONSOLES_MAX_NR = 2"

definition LOG_MAX_LEN :: nat where
  "LOG_MAX_LEN = 1024"

definition SYSLOG_EMPTY_MSG_SIZE :: nat where
  "SYSLOG_EMPTY_MSG_SIZE = 5"

definition LOG_INFO :: int where
  "LOG_INFO = 6"

definition LOG_DEBUG :: int where
  "LOG_DEBUG = 7"

definition IS_SYSLOG_LEVEL :: "int \<Rightarrow> bool" where
  "IS_SYSLOG_LEVEL level \<longleftrightarrow> 0 \<le> level \<and> level \<le> 7"

text \<open>A callback is a function pointer: its address, \<open>NULL\<close> being \<open>0\<close>.\<close>

type_synonym log_callback_t = nat

definition NULL :: log_callback_t where
  "NULL = 0"

record console_t =
  notify :: log_callback_t
  maxlevel :: int

text \<open>The two static objects of the file: the message buffer and the console table.\<close>

record log_t =
  message :: "char list"
  consoles :: "console_t list"

definition log_start :: log_t where
  "log_start = \<lparr>message = replicate LOG_MAX_LEN (CHR 0x00),
                 consoles = replicate CONSOLES_MAX_NR \<lparr>notify = NULL, maxlevel = 0\<rparr>\<rparr>"

function log_unsubscribe_loop ::
  "nat \<Rightarrow> log_callback_t \<Rightarrow> console_t list \<Rightarrow> console_t list" where
  "log_unsubscribe_loop i callback cs =
     (if i < CONSOLES_MAX_NR then
        (if notify (cs ! i) = callback
         then cs[i := (cs ! i)\<lparr>notify := NULL, maxlevel := 0\<rparr>]
         else log_unsubscribe_loop (i + 1) callback cs)
      else cs)"
  by pat_completeness auto
termination
  by (relation "measure (\<lambda>(i, callback, cs). CONSOLES_MAX_NR - i)") auto

definition log_unsubscribe :: "log_callback_t \<Rightarrow> console_t list \<Rightarrow> console_t list" where
  "log_unsubscribe callback cs = log_unsubscribe_loop 0 callback cs"

function log_subscribe_loop ::
  "nat \<Rightarrow> log_callback_t \<Rightarrow> int \<Rightarrow> console_t list \<Rightarrow> status \<times> console_t list" where
  "log_subscribe_loop i callback lvl cs =
     (if i < CONSOLES_MAX_NR then
        (if notify (cs ! i) = NULL
         then (ERR_SUCCESS, cs[i := (cs ! i)\<lparr>notify := callback, maxlevel := lvl\<rparr>])
         else log_subscribe_loop (i + 1) callback lvl cs)
      else (ERR_OUT_OF_RESOURCES, cs))"
  by pat_completeness auto
termination
  by (relation "measure (\<lambda>(i, callback, lvl, cs). CONSOLES_MAX_NR - i)") auto

definition log_subscribe ::
  "log_callback_t \<Rightarrow> int \<Rightarrow> console_t list \<Rightarrow> status \<times> console_t list" where
  "log_subscribe callback lvl cs =
     (let lvl = (if \<not> IS_SYSLOG_LEVEL lvl then LOG_DEBUG else lvl);
          cs = log_unsubscribe callback cs
      in log_subscribe_loop 0 callback lvl cs)"

text \<open>
  \<^verbatim>\<open>log_init\<close> subscribes \<^verbatim>\<open>firmware_print\<close>, a function of another file, given
  here by its address.
\<close>

definition log_init :: "log_callback_t \<Rightarrow> bool \<Rightarrow> console_t list \<Rightarrow> status \<times> console_t list" where
  "log_init firmware_print verbose cs =
     (let (status, cs) = log_subscribe firmware_print (if verbose then LOG_DEBUG else LOG_INFO) cs
      in if status \<noteq> ERR_SUCCESS then (status, cs) else (ERR_SUCCESS, cs))"

text \<open>
  The console tables the program can be in: the zeroed static table, changed by any
  calls of \<^verbatim>\<open>log_subscribe\<close> and \<^verbatim>\<open>log_unsubscribe\<close> (they alone write to it).
\<close>

inductive reachable :: "console_t list \<Rightarrow> bool" where
  start: "reachable (consoles log_start)"
| subscribe: "reachable cs \<Longrightarrow> reachable (snd (log_subscribe callback lvl cs))"
| unsubscribe: "reachable cs \<Longrightarrow> reachable (log_unsubscribe callback cs)"


subsection \<open>Formatting\<close>

definition NUL :: char where
  "NUL = CHR 0x00"

definition newline :: char where
  "newline = CHR 0x0A"

text \<open>
  \<^verbatim>\<open>snprintf\<close> and \<^verbatim>\<open>vsnprintf\<close> are in libc/printf.c, which is not among the
  sources read here. They are taken as C99 describes them: of the text that the format
  and its arguments produce, at most \<open>n - 1\<close> characters are stored at the
  destination, then a NUL; the result is the length of the whole text, or \<open>-1\<close> on an
  error. The text is a parameter (\<open>None\<close> for an error): any bytes, since \<^verbatim>\<open>%c\<close>
  prints any byte it is given. The destination is \<open>buf\<close> from index \<open>off\<close>.
\<close>

definition store :: "char list \<Rightarrow> nat \<Rightarrow> char list \<Rightarrow> char list" where
  "store buf off xs = take off buf @ xs @ drop (off + length xs) buf"

definition vsnprintf :: "char list \<Rightarrow> nat \<Rightarrow> nat \<Rightarrow> char list option \<Rightarrow> char list \<times> int" where
  "vsnprintf buf off n text =
     (case text of
        None \<Rightarrow> (buf, -1)
      | Some s \<Rightarrow>
          (if n = 0 then buf else store buf off (take (n - 1) s @ [NUL]),
           int (length s)))"

text \<open>The text of \<^verbatim>\<open>"<%c>%s"\<close> for a level and a prefix.\<close>

definition syslog_header :: "int \<Rightarrow> char list option \<Rightarrow> char list" where
  "syslog_header level prefix =
     [CHR ''<'', char_of (48 + level), CHR ''>''] @ (case prefix of None \<Rightarrow> [] | Some p \<Rightarrow> p)"

definition syslog_vformat ::
  "char list \<Rightarrow> nat \<Rightarrow> int \<Rightarrow> char list option \<Rightarrow> char list option \<Rightarrow> char list \<times> nat" where
  "syslog_vformat msgbuf buflen level prefix text =
     (if buflen < SYSLOG_EMPTY_MSG_SIZE \<or> \<not> IS_SYSLOG_LEVEL level then (msgbuf, 0)
      else
        let (msgbuf, n) = vsnprintf msgbuf 0 buflen (Some (syslog_header level prefix))
        in if n = -1 then (msgbuf, 0)
           else
             let len = min (nat n) (buflen - 1);
                 (msgbuf, n) =
                   (if len + 1 \<le> buflen then vsnprintf msgbuf len (buflen - len) text
                    else (msgbuf, 0))
             in if len + 1 \<le> buflen \<and> n = -1 then (msgbuf, 0)
                else
                  let len = (if len + 1 \<le> buflen
                             then len + min (nat n) (buflen - len - 1) else len)
                  in if msgbuf ! (len - 1) \<noteq> newline then
                       (let len = (if len + 1 = buflen then len - 1 else len);
                            msgbuf = msgbuf[len := newline];
                            len = len + 1;
                            msgbuf = msgbuf[len := NUL]
                        in (msgbuf, len))
                     else (msgbuf, len))"

text \<open>
  The loop of \<^verbatim>\<open>Log\<close> over the consoles. A call of a console is logged as the
  callback and the buffer it is handed; what the callback does is outside this file.
\<close>

function Log_loop ::
  "nat \<Rightarrow> int \<Rightarrow> console_t list \<Rightarrow> char list \<Rightarrow> (log_callback_t \<times> char list) list" where
  "Log_loop i level cs msg =
     (if i < CONSOLES_MAX_NR then
        (if notify (cs ! i) \<noteq> NULL \<and> level \<le> maxlevel (cs ! i)
         then (notify (cs ! i), msg) # Log_loop (i + 1) level cs msg
         else Log_loop (i + 1) level cs msg)
      else [])"
  by pat_completeness auto
termination
  by (relation "measure (\<lambda>(i, level, cs, msg). CONSOLES_MAX_NR - i)") auto

definition Log :: "int \<Rightarrow> char list option \<Rightarrow> log_t \<Rightarrow> (log_callback_t \<times> char list) list \<times> log_t" where
  "Log level text st =
     (let level = (if \<not> IS_SYSLOG_LEVEL level then LOG_DEBUG else level);
          (msg, len) = syslog_vformat (message st) LOG_MAX_LEN level None text;
          msgsize = len + 1;
          st = st\<lparr>message := msg\<rparr>
      in if msgsize \<le> 1 then ([], st) else (Log_loop 0 level (consoles st) msg, st))"

text \<open>The string a callback reads at the pointer it is given: the bytes before the first NUL.\<close>

definition c_string :: "char list \<Rightarrow> char list" where
  "c_string buf = takeWhile (\<lambda>c. c \<noteq> NUL) buf"

section \<open>tools/elf2efi.c: the ELF-to-EFI converter\<close>

text \<open>
  The Makefile builds the converter from \<^verbatim>\<open>elf2efi.c\<close>, which is not among the sources
  read here. The data and the relocation translator are modelled from sections 3 and 4.3
  of the specification, the pipeline from sections 4, 6 and 7. What the specification
  leaves open (the reader, the layout planner with its address map, the relocation table
  of an architecture, the entry resolver and the emitter) is a parameter.
\<close>

type_synonym byte = "8 word"

text \<open>Modelled from the spec: the error taxonomy of section 7 (the converter's error
  reporting is missing); \<^verbatim>\<open>UnsupportedRelocation\<close> names the type code, the section and
  the offset (section 4.3).\<close>

datatype conv_error =
  FormatError | TruncatedError | UnsupportedMachine | UnsupportedRelocation nat nat nat
  | MissingEntryPoint | ImageTooLarge | IoError

text \<open>Modelled from the spec: the \<^verbatim>\<open>Section\<close> of an ElfImage (section 3): name, type, flags,
  virtual address, size, alignment and its bytes.\<close>

record Section =
  sec_name :: string
  sec_type :: nat
  sec_flags :: nat
  sec_vaddr :: nat
  sec_size :: nat
  sec_align :: nat
  sec_bytes :: "byte list"

text \<open>Modelled from the spec: the \<^verbatim>\<open>Symbol\<close> of an ElfImage (section 3): name, value,
  owning section index and binding.\<close>

record Symbol =
  sym_name :: string
  sym_value :: nat
  sym_section :: nat
  sym_binding :: nat

text \<open>Modelled from the spec: the \<^verbatim>\<open>Relocation\<close> of an ElfImage (section 3): offset, symbol
  index, type code and addend.\<close>

record Relocation =
  rel_offset :: nat
  rel_symbol :: nat
  rel_type :: nat
  rel_addend :: int

text \<open>Modelled from the spec: the \<^verbatim>\<open>ElfImage\<close> that the reader builds (section 3);
  \<open>relocations\<close> holds one ordered sequence per section, at the section's index.\<close>

record ElfImage =
  raw :: "byte list"
  bit_width :: nat
  big_endian :: bool
  machine :: nat
  entry_vaddr :: nat
  sections :: "Section list"
  symbols :: "Symbol list"
  relocations :: "Relocation list list"

text \<open>Modelled from the spec: the relocation records of an image, each with the index of
  the section it belongs to, in section order (section 3: every relocation targets a
  byte range inside exactly one section).\<close>

definition all_relocs :: "ElfImage \<Rightarrow> (nat \<times> Relocation) list" where
  "all_relocs img =
     concat (map (\<lambda>(si, rs). map (Pair si) rs)
       (zip [0 ..< length (relocations img)] (relocations img)))"




subsection \<open>Relocation translator (section 4.3)\<close>

text \<open>Modelled from the spec: the base-relocation kinds that the table maps to (a 64-bit
  absolute address to a 64-bit rebase, a 32-bit absolute address to a 32-bit high/low
  rebase).\<close>

datatype fixup_kind = Rebase64 | HighLow32

text \<open>Modelled from the spec: what the architecture's table says of a supported type code:
  an absolute address that depends on the load base, a PC-relative value, or a static
  value already resolved (the last two with the width in bytes of the patched field).
  A type code that the table does not list is outside the supported set.\<close>

datatype reloc_class = Absolute fixup_kind | PcRelative nat | Static nat

type_synonym reloc_table = "nat \<Rightarrow> reloc_class option"

text \<open>Modelled from the spec: the width in bytes of the field a relocation patches: eight
  for a 64-bit absolute address, four for a 32-bit one.\<close>

fun class_width :: "reloc_class \<Rightarrow> nat" where
  "class_width (Absolute Rebase64) = 8"
| "class_width (Absolute HighLow32) = 4"
| "class_width (PcRelative w) = w"
| "class_width (Static w) = w"

text \<open>Modelled from the spec: absolute-address fixups need a runtime base-relocation
  entry; PC-relative and already-resolved static fixups do not.\<close>

fun runtime_kind :: "reloc_class \<Rightarrow> fixup_kind option" where
  "runtime_kind (Absolute k) = Some k"
| "runtime_kind (PcRelative w) = None"
| "runtime_kind (Static w) = None"

text \<open>Modelled from the spec: the \<^verbatim>\<open>RelocationBlock\<close> (section 3): a page RVA and the
  entries (in-page offset, fixup kind).\<close>

record RelocationBlock =
  page_rva :: nat
  entries :: "(nat \<times> fixup_kind) list"

text \<open>Modelled from the spec: the size of a page of the base-relocation table, 4 KiB.\<close>

definition PAGE_SIZE :: nat where
  "PAGE_SIZE = 4096"

text \<open>Modelled from the spec: one relocation record after its processing: the byte range
  it targets (section, offset, width), the static value folded into the working copy of
  the section's bytes, and the runtime entry (fixup RVA, kind) when it needs one.\<close>

record fixup =
  fx_section :: nat
  fx_offset :: nat
  fx_width :: nat
  fx_value :: int
  fx_entry :: "(nat \<times> fixup_kind) option"

text \<open>Modelled from the spec: the processing of one relocation record: a type code
  outside the table is rejected, naming the type code, the section and the offset; the
  fixup's RVA comes from the address map; the static value is the symbol's address plus
  the addend, less the fixup's address for a PC-relative kind. A symbol index outside
  the symbol table (which the reader excludes) is malformed input.\<close>

definition process_reloc ::
  "reloc_table \<Rightarrow> (nat \<times> nat \<Rightarrow> nat) \<Rightarrow> nat \<Rightarrow> ElfImage \<Rightarrow> nat \<times> Relocation \<Rightarrow> conv_error + fixup" where
  "process_reloc tbl amap base img sr =
     (let si = fst sr; r = snd sr in
      case tbl (rel_type r) of
        None \<Rightarrow> Inl (UnsupportedRelocation (rel_type r) si (rel_offset r))
      | Some c \<Rightarrow>
          if rel_symbol r < length (symbols img) then
            (let sym = symbols img ! rel_symbol r;
                 fixup_rva = amap (si, rel_offset r);
                 symbol_value = int (base + amap (sym_section sym, sym_value sym));
                 v = (case c of
                        PcRelative w \<Rightarrow> symbol_value + rel_addend r - int (base + fixup_rva)
                      | _ \<Rightarrow> symbol_value + rel_addend r)
             in Inr \<lparr>fx_section = si, fx_offset = rel_offset r, fx_width = class_width c,
                     fx_value = v,
                     fx_entry = map_option (Pair fixup_rva) (runtime_kind c)\<rparr>)
          else Inl FormatError)"

text \<open>Modelled from the spec: every relocation record is processed, in order; the first
  failure ends the stage.\<close>

fun process_all ::
  "reloc_table \<Rightarrow> (nat \<times> nat \<Rightarrow> nat) \<Rightarrow> nat \<Rightarrow> ElfImage \<Rightarrow> (nat \<times> Relocation) list
     \<Rightarrow> conv_error + fixup list" where
  "process_all tbl amap base img [] = Inr []"
| "process_all tbl amap base img (sr # srs) =
     (case process_reloc tbl amap base img sr of
        Inl e \<Rightarrow> Inl e
      | Inr f \<Rightarrow>
          (case process_all tbl amap base img srs of
             Inl e \<Rightarrow> Inl e
           | Inr fs \<Rightarrow> Inr (f # fs)))"

text \<open>Modelled from the spec: two relocation targets overlap when they lie in the same
  section and their byte ranges share a byte.\<close>

definition overlap :: "fixup \<Rightarrow> fixup \<Rightarrow> bool" where
  "overlap f g \<longleftrightarrow>
     fx_section f = fx_section g \<and> 0 < fx_width f \<and> 0 < fx_width g \<and>
     fx_offset f < fx_offset g + fx_width g \<and> fx_offset g < fx_offset f + fx_width f"

text \<open>Modelled from the spec: the test for overlapping relocation targets, over every
  pair of processed records.\<close>

fun has_overlap :: "fixup list \<Rightarrow> bool" where
  "has_overlap [] = False"
| "has_overlap (f # fs) = (list_ex (overlap f) fs \<or> has_overlap fs)"

text \<open>Modelled from the spec: the entries, ascending by RVA, are grouped by the 4 KiB page
  that contains them; a block is made only for a page that has an entry.\<close>

fun group_pages :: "(nat \<times> fixup_kind) list \<Rightarrow> RelocationBlock list" where
  "group_pages [] = []"
| "group_pages ((a, k) # es) =
     (let page = a - a mod PAGE_SIZE; e = (a mod PAGE_SIZE, k) in
      case group_pages es of
        [] \<Rightarrow> [\<lparr>page_rva = page, entries = [e]\<rparr>]
      | b # bs \<Rightarrow>
          if page_rva b = page then b\<lparr>entries := e # entries b\<rparr> # bs
          else \<lparr>page_rva = page, entries = [e]\<rparr> # b # bs)"

text \<open>Modelled from the spec: the translator's result: the folded values for the working
  copy of the section bytes, and the relocation blocks.\<close>

record translated =
  t_folded :: "fixup list"
  t_blocks :: "RelocationBlock list"

text \<open>Modelled from the spec: the runtime entries of the processed records, in the order
  of the records.\<close>

definition runtime_entries :: "fixup list \<Rightarrow> (nat \<times> fixup_kind) list" where
  "runtime_entries fs = concat (map (\<lambda>f. case fx_entry f of None \<Rightarrow> [] | Some e \<Rightarrow> [e]) fs)"

text \<open>Modelled from the spec: the relocation translator: every record is processed;
  overlapping targets are a FormatError; the entries are sorted and grouped by page.\<close>

definition translate ::
  "reloc_table \<Rightarrow> (nat \<times> nat \<Rightarrow> nat) \<Rightarrow> nat \<Rightarrow> ElfImage \<Rightarrow> conv_error + translated" where
  "translate tbl amap base img =
     (case process_all tbl amap base img (all_relocs img) of
        Inl e \<Rightarrow> Inl e
      | Inr fs \<Rightarrow>
          if has_overlap fs then Inl FormatError
          else Inr \<lparr>t_folded = fs,
                    t_blocks = group_pages (sort_key fst (runtime_entries fs))\<rparr>)"

text \<open>Modelled from the spec: the runtime entry that a source relocation requires: its
  fixup RVA with the kind of the table when its kind is an absolute address, none
  otherwise.\<close>

definition entry_of :: "reloc_table \<Rightarrow> (nat \<times> nat \<Rightarrow> nat) \<Rightarrow> nat \<times> Relocation \<Rightarrow> (nat \<times> fixup_kind) option" where
  "entry_of tbl amap sr =
     (case tbl (rel_type (snd sr)) of
        Some (Absolute k) \<Rightarrow> Some (amap (fst sr, rel_offset (snd sr)), k)
      | _ \<Rightarrow> None)"

text \<open>Modelled from the spec: a source relocation of absolute-address kind.\<close>

definition is_absolute :: "reloc_table \<Rightarrow> nat \<times> Relocation \<Rightarrow> bool" where
  "is_absolute tbl sr = (case tbl (rel_type (snd sr)) of Some (Absolute k) \<Rightarrow> True | _ \<Rightarrow> False)"

text \<open>Modelled from the spec: the entries of a block, each by its RVA (page RVA plus
  in-page offset).\<close>

definition block_entries :: "RelocationBlock \<Rightarrow> (nat \<times> fixup_kind) list" where
  "block_entries b = map (\<lambda>e. (page_rva b + fst e, snd e)) (entries b)"


subsection \<open>The pipeline and the command line (sections 4 and 6)\<close>

text \<open>Modelled from the spec: the subsystem of the command line, application or driver.\<close>

datatype subsystem = Application | Driver





section \<open>Auxiliary notions of the proofs\<close>

text \<open>The shape of the console table: two slots, and no callback in both.\<close>

definition table_ok :: "console_t list \<Rightarrow> bool" where
  "table_ok cs \<longleftrightarrow> (\<exists>a b. cs = [a, b] \<and> (notify a = notify b \<longrightarrow> notify a = NULL))"

text \<open>The line that \<^verbatim>\<open>syslog_vformat\<close> leaves in the buffer of \<^verbatim>\<open>Log\<close>, before its NUL.\<close>

definition line_of :: "int \<Rightarrow> char list \<Rightarrow> char list" where
  "line_of level out =
     (let body = syslog_header level None @ take 1020 out in
      if last body = newline then body
      else if length body = 1023 then butlast body @ [newline]
      else body @ [newline])"

text \<open>Concrete inputs: a device whose remote end is present and whose FIFO is empty, and
  one whose remote end is absent.\<close>

definition dev_ready :: io_t where
  "dev_ready = \<lparr>regs = (\<lambda>off k. if off = SCRATCHPAD1 then 1 else 0), nreads = 0, writes = []\<rparr>"

definition dev_absent :: io_t where
  "dev_absent = \<lparr>regs = (\<lambda>off k. 0), nreads = 0, writes = []\<rparr>"

text \<open>A console table with one console, callback at address 5, subscribed at LOG_DEBUG.\<close>

definition one_console :: "console_t list" where
  "one_console = snd (log_subscribe 5 LOG_DEBUG (consoles log_start))"

text \<open>The logging hub with that console and a zeroed message buffer.\<close>

definition log_one :: log_t where
  "log_one = \<lparr>message = replicate LOG_MAX_LEN NUL, consoles = one_console\<rparr>"

text \<open>Concrete inputs of the converter: a table for three type codes (1 a 64-bit
  absolute address, 2 a 32-bit PC-relative value, 10 a 32-bit absolute address), an
  address map that places section \<open>i\<close> at RVA \<open>0x1000 * (i + 1)\<close>, and images with one
  code section and one symbol, at offset \<open>0x50\<close> of that section.\<close>

definition scenario_table :: reloc_table where
  "scenario_table t =
     (if t = 1 then Some (Absolute Rebase64)
      else if t = 2 then Some (PcRelative 4)
      else if t = 10 then Some (Absolute HighLow32)
      else None)"

definition scenario_map :: "nat \<times> nat \<Rightarrow> nat" where
  "scenario_map p = 0x1000 * (fst p + 1) + snd p"

definition image_with :: "Relocation list \<Rightarrow> ElfImage" where
  "image_with rs =
     \<lparr>raw = [], bit_width = 64, big_endian = False, machine = 62, entry_vaddr = 0,
      sections = [\<lparr>sec_name = ''.text'', sec_type = 1, sec_flags = 6, sec_vaddr = 0,
                   sec_size = 0x100, sec_align = 16, sec_bytes = replicate 0x100 0\<rparr>],
      symbols = [\<lparr>sym_name = ''target'', sym_value = 0x50, sym_section = 0, sym_binding = 1\<rparr>],
      relocations = [rs]\<rparr>"

definition reloc_at :: "nat \<Rightarrow> nat \<Rightarrow> Relocation" where
  "reloc_at off t = \<lparr>rel_offset = off, rel_symbol = 0, rel_type = t, rel_addend = 0\<rparr>"

definition mixed_image :: ElfImage where
  "mixed_image = image_with [reloc_at 0x10 1, reloc_at 0x20 2, reloc_at 0x8 1]"







section \<open>tmfifo.c: what \<^verbatim>\<open>tmfifo_putc\<close> writes\<close>

lemma tx_header_data: "header_data tx_header = 0x10003"
  by (simp add: header_data_def tx_header_def TMFIFO_MSG_CONSOLE_def)

lemma tmfifo_full_eq:
  "tmfifo_full d = (regs d TILE_TO_HOST_STATUS (nreads d) > 254, d\<lparr>nreads := nreads d + 1\<rparr>)"
  by (simp add: tmfifo_full_def io_read64_def FIFO_LENGTH_def)

declare tmfifo_putc_loop.simps [simp del]

lemma putc_loop_writes:
  "writes (tmfifo_putc_loop timeout d c) =
     writes d @
     (if \<exists>k < unat timeout. regs d TILE_TO_HOST_STATUS (nreads d + k) \<le> 254
      then [(TILE_TO_HOST_DATA, 0x10003), (TILE_TO_HOST_DATA, char_to_u64 c)] else [])"
proof (induction timeout d c rule: tmfifo_putc_loop.induct)
  case (1 timeout d c)
  show ?case
  proof (cases "timeout > 0")
    case False
    then have "unat timeout = 0" by (simp add: word_greater_zero_iff unat_eq_zero)
    with False show ?thesis by (subst tmfifo_putc_loop.simps) simp
  next
    case pos: True
    then have ut: "unat timeout = Suc (unat (timeout - 1))"
      by (metis Suc_pred' unat_gt_0 unat_minus_one word_greater_zero_iff)
    show ?thesis
    proof (cases "regs d TILE_TO_HOST_STATUS (nreads d) > 254")
      case False
      then have "\<exists>k < unat timeout. regs d TILE_TO_HOST_STATUS (nreads d + k) \<le> 254"
        using ut by (intro exI[of _ 0]) (simp add: not_less)
      with pos False show ?thesis
        by (subst tmfifo_putc_loop.simps)
           (simp add: tmfifo_full_eq io_write64_def tx_header_data)
    next
      case full: True
      let ?d' = "d\<lparr>nreads := nreads d + 1\<rparr>"
      have ih: "writes (tmfifo_putc_loop (timeout - 1) ?d' c) =
        writes ?d' @
         (if \<exists>k < unat (timeout - 1). regs ?d' TILE_TO_HOST_STATUS (nreads ?d' + k) \<le> 254
          then [(TILE_TO_HOST_DATA, 0x10003), (TILE_TO_HOST_DATA, char_to_u64 c)] else [])"
        using "1.IH"[OF pos _ _, of "(True, ?d')" True ?d'] full pos
        by (simp add: tmfifo_full_eq)
      have ex: "(\<exists>k < unat timeout. regs d TILE_TO_HOST_STATUS (nreads d + k) \<le> 254) \<longleftrightarrow>
                (\<exists>k < unat (timeout - 1). regs d TILE_TO_HOST_STATUS (nreads d + 1 + k) \<le> 254)"
        (is "?L \<longleftrightarrow> ?R")
      proof
        assume ?L
        then obtain k where k: "k < unat timeout" "regs d TILE_TO_HOST_STATUS (nreads d + k) \<le> 254"
          by blast
        have "k \<noteq> 0"
        proof
          assume "k = 0"
          with k(2) full show False by (simp add: not_le[symmetric])
        qed
        then obtain j where "k = Suc j" by (cases k) auto
        with k ut show ?R by (intro exI[of _ j]) simp
      next
        assume ?R
        then obtain j where "j < unat (timeout - 1)" "regs d TILE_TO_HOST_STATUS (nreads d + 1 + j) \<le> 254"
          by blast
        with ut show ?L by (intro exI[of _ "Suc j"]) simp
      qed
      have "tmfifo_putc_loop timeout d c = tmfifo_putc_loop (timeout - 1) ?d' c"
        using pos full by (subst tmfifo_putc_loop.simps) (simp add: tmfifo_full_eq)
      with ih ex show ?thesis by simp
    qed
  qed
qed

text \<open>
  Claim C10. \<^verbatim>\<open>tmfifo_putc\<close> writes only when SCRATCHPAD1 reads nonzero and one of the
  at most \<open>0xffff\<close> polls of TILE_TO_HOST_STATUS (the reads after the one of
  SCRATCHPAD1) finds the FIFO not full, that is at most \<open>FIFO_LENGTH - 2 = 254\<close>. It
  then makes exactly two writes, both to TILE_TO_HOST_DATA: the header word
  \<open>0x10003\<close> (type 3, length 1) and then the character. Otherwise it writes nothing.
\<close>

theorem tmfifo_putc_writes:
  "header_data tx_header = 0x10003 \<and>
   writes (tmfifo_putc d c) =
     writes d @
     (if regs d SCRATCHPAD1 (nreads d) \<noteq> 0 \<and>
         (\<exists>k < 0xffff. regs d TILE_TO_HOST_STATUS (nreads d + 1 + k) \<le> of_nat (FIFO_LENGTH - 2))
      then [(TILE_TO_HOST_DATA, header_data tx_header), (TILE_TO_HOST_DATA, char_to_u64 c)]
      else [])"
proof -
  have u: "unat (0xffff :: 16 word) = 0xffff" by simp
  show ?thesis
    by (simp add: tmfifo_putc_def tmfifo_connected_def io_read64_def putc_loop_writes u
        tx_header_data FIFO_LENGTH_def)
qed

theorem tmfifo_putc_writes_witness:
  "writes (tmfifo_putc dev_ready 0x41) = [(0xa40, 0x10003), (0xa40, 0x41)] \<and>
   writes (tmfifo_putc dev_absent 0x41) = []"
proof -
  have "\<exists>k < (0xffff :: nat). regs dev_ready TILE_TO_HOST_STATUS (nreads dev_ready + 1 + k) \<le> of_nat (FIFO_LENGTH - 2)"
    by (intro exI[of _ 0]) (simp add: dev_ready_def TILE_TO_HOST_STATUS_def SCRATCHPAD1_def)
  moreover have "regs dev_ready SCRATCHPAD1 (nreads dev_ready) \<noteq> 0"
    by (simp add: dev_ready_def)
  moreover have "regs dev_absent SCRATCHPAD1 (nreads dev_absent) = 0"
    by (simp add: dev_absent_def)
  ultimately show ?thesis
    using tmfifo_putc_writes[of dev_ready "0x41"] tmfifo_putc_writes[of dev_absent "0x41"]
    by (simp add: TILE_TO_HOST_DATA_def char_to_u64_def dev_ready_def dev_absent_def)
qed

section \<open>log.c: the console table\<close>

declare log_unsubscribe_loop.simps [simp del] log_subscribe_loop.simps [simp del]
  Log_loop.simps [simp del]


lemma less_consoles: "i < CONSOLES_MAX_NR \<longleftrightarrow> i = 0 \<or> i = 1"
  by (auto simp: CONSOLES_MAX_NR_def)

lemma log_unsubscribe_pair:
  "log_unsubscribe callback [a, b] =
     (if notify a = callback then [a\<lparr>notify := NULL, maxlevel := 0\<rparr>, b]
      else if notify b = callback then [a, b\<lparr>notify := NULL, maxlevel := 0\<rparr>]
      else [a, b])"
proof -
  have two: "log_unsubscribe_loop (Suc (Suc 0)) callback [a, b] = [a, b]"
    by (subst log_unsubscribe_loop.simps) (simp add: CONSOLES_MAX_NR_def)
  have one: "log_unsubscribe_loop (Suc 0) callback [a, b] =
      (if notify b = callback then [a, b\<lparr>notify := NULL, maxlevel := 0\<rparr>] else [a, b])"
    by (subst log_unsubscribe_loop.simps) (simp add: CONSOLES_MAX_NR_def two)
  show ?thesis
    unfolding log_unsubscribe_def
    by (subst log_unsubscribe_loop.simps) (simp add: CONSOLES_MAX_NR_def one)
qed

lemma log_subscribe_loop_pair:
  "log_subscribe_loop 0 callback lvl [a, b] =
     (if notify a = NULL then (ERR_SUCCESS, [a\<lparr>notify := callback, maxlevel := lvl\<rparr>, b])
      else if notify b = NULL then (ERR_SUCCESS, [a, b\<lparr>notify := callback, maxlevel := lvl\<rparr>])
      else (ERR_OUT_OF_RESOURCES, [a, b]))"
proof -
  have two: "log_subscribe_loop (Suc (Suc 0)) callback lvl [a, b] = (ERR_OUT_OF_RESOURCES, [a, b])"
    by (subst log_subscribe_loop.simps) (simp add: CONSOLES_MAX_NR_def)
  have one: "log_subscribe_loop (Suc 0) callback lvl [a, b] =
      (if notify b = NULL then (ERR_SUCCESS, [a, b\<lparr>notify := callback, maxlevel := lvl\<rparr>])
       else (ERR_OUT_OF_RESOURCES, [a, b]))"
    by (subst log_subscribe_loop.simps) (simp add: CONSOLES_MAX_NR_def two)
  show ?thesis
    by (subst log_subscribe_loop.simps) (simp add: CONSOLES_MAX_NR_def one)
qed

lemma log_subscribe_pair:
  "log_subscribe callback lvl [a, b] =
     (let l = (if IS_SYSLOG_LEVEL lvl then lvl else LOG_DEBUG) in
      if notify a = callback then (ERR_SUCCESS, [a\<lparr>notify := callback, maxlevel := l\<rparr>, b])
      else if notify a = NULL then
        (ERR_SUCCESS,
         [a\<lparr>notify := callback, maxlevel := l\<rparr>,
          if notify b = callback then b\<lparr>notify := NULL, maxlevel := 0\<rparr> else b])
      else if notify b = callback \<or> notify b = NULL
        then (ERR_SUCCESS, [a, b\<lparr>notify := callback, maxlevel := l\<rparr>])
      else (ERR_OUT_OF_RESOURCES, [a, b]))"
  by (cases "notify a = callback"; cases "notify b = callback"; cases "notify a = NULL";
      cases "notify b = NULL")
     (simp_all add: log_subscribe_def log_unsubscribe_pair log_subscribe_loop_pair)

lemma table_ok_unsubscribe: "table_ok cs \<Longrightarrow> table_ok (log_unsubscribe callback cs)"
  by (auto simp: table_ok_def log_unsubscribe_pair)

lemma table_ok_subscribe: "table_ok cs \<Longrightarrow> table_ok (snd (log_subscribe callback lvl cs))"
  by (auto simp: table_ok_def log_subscribe_pair Let_def)

lemma reachable_table_ok: "reachable cs \<Longrightarrow> table_ok cs"
proof (induction rule: reachable.induct)
  case start
  show ?case
    by (simp add: table_ok_def log_start_def CONSOLES_MAX_NR_def numeral_2_eq_2)
next
  case (subscribe cs callback lvl)
  from subscribe.IH show ?case by (rule table_ok_subscribe)
next
  case (unsubscribe cs callback)
  from unsubscribe.IH show ?case by (rule table_ok_unsubscribe)
qed








lemma one_console_eq:
  "one_console = [\<lparr>notify = 5, maxlevel = 7\<rparr>, \<lparr>notify = 0, maxlevel = 0\<rparr>]"
  by (simp add: one_console_def log_start_def CONSOLES_MAX_NR_def numeral_2_eq_2
      log_subscribe_pair Let_def NULL_def LOG_DEBUG_def IS_SYSLOG_LEVEL_def)

lemma reachable_one_console: "reachable one_console"
  unfolding one_console_def by (rule reachable.subscribe) (rule reachable.start)



section \<open>log.c: what Log delivers\<close>

declare Log_loop.simps [simp del]

lemma Log_loop_pair:
  "Log_loop 0 level [a, b] msg =
     (if notify a \<noteq> NULL \<and> level \<le> maxlevel a then [(notify a, msg)] else []) @
     (if notify b \<noteq> NULL \<and> level \<le> maxlevel b then [(notify b, msg)] else [])"
proof -
  have two: "Log_loop (Suc (Suc 0)) level [a, b] msg = []"
    by (subst Log_loop.simps) (simp add: CONSOLES_MAX_NR_def)
  have one: "Log_loop (Suc 0) level [a, b] msg =
      (if notify b \<noteq> NULL \<and> level \<le> maxlevel b then [(notify b, msg)] else [])"
    by (subst Log_loop.simps) (simp add: CONSOLES_MAX_NR_def two)
  show ?thesis
    by (subst Log_loop.simps) (simp add: CONSOLES_MAX_NR_def one)
qed


lemma length_syslog_header: "length (syslog_header level None) = 3"
  by (simp add: syslog_header_def)

lemma store_at_0:
  assumes "length xs = k"
  shows "store buf 0 xs = xs @ drop k buf"
  using assms by (simp add: store_def)

lemma store_at_length:
  assumes "length h = off" "length xs = k"
  shows "store (h @ r) off xs = h @ xs @ drop k r"
  using assms by (simp add: store_def)

lemma vsnprintf_header:
  "vsnprintf msgbuf 0 1024 (Some (syslog_header level None)) =
           (syslog_header level None @ NUL # drop 4 msgbuf, 3)"
proof -
  have l: "length (take (1024 - 1) (syslog_header level None) @ [NUL]) = 4"
    by (simp add: length_syslog_header)
  have t: "take (1024 - 1) (syslog_header level None) = syslog_header level None"
    by (simp add: length_syslog_header)
  show ?thesis
    unfolding vsnprintf_def option.case store_at_0[OF l]
    by (simp add: t length_syslog_header)
qed

lemma vsnprintf_body:
  assumes "length h = 3"
  shows "vsnprintf (h @ r) 3 1021 (Some out) =
           (h @ take 1020 out @ NUL # drop (Suc (length (take 1020 out))) r, int (length out))"
proof -
  have l: "length (take (1021 - 1) out @ [NUL]) = Suc (length (take 1020 out))"
    by simp
  show ?thesis
    unfolding vsnprintf_def option.case store_at_length[OF assms l]
    by simp
qed



lemma syslog_vformat_unfold:
  assumes lvl: "IS_SYSLOG_LEVEL level"
  shows "syslog_vformat msgbuf 1024 level None (Some out) =
    (let body = syslog_header level None @ take 1020 out;
         b = body @ NUL # drop (Suc (length body)) msgbuf;
         len = length body
     in if b ! (len - 1) \<noteq> newline then
          (let len = (if len + 1 = 1024 then len - 1 else len);
               b = b[len := newline];
               len = len + 1;
               b = b[len := NUL]
           in (b, len))
        else (b, len))"
proof (cases "length out < 1020")
  case True
  then show ?thesis
    using lvl
    by (simp add: syslog_vformat_def SYSLOG_EMPTY_MSG_SIZE_def
        vsnprintf_header vsnprintf_body length_syslog_header Let_def add.commute)
next
  case False
  then have "min (length out) 1020 = 1020" by simp
  then show ?thesis
    using lvl
    by (simp add: syslog_vformat_def SYSLOG_EMPTY_MSG_SIZE_def
        vsnprintf_header vsnprintf_body length_syslog_header Let_def)
qed

lemma terminate_line:
  assumes ne: "body \<noteq> []" and n: "length (body @ NUL # R) = n"
  defines "txt \<equiv> (if last body = newline then body
                     else if length body + 1 = n then butlast body @ [newline]
                     else body @ [newline])"
  shows "\<exists>rest.
    (let b = body @ NUL # R; len = length body
     in if b ! (len - 1) \<noteq> newline then
          (let len = (if len + 1 = n then len - 1 else len);
               b = b[len := newline];
               len = len + 1;
               b = b[len := NUL]
           in (b, len))
        else (b, len)) = (txt @ NUL # rest, length txt) \<and>
    length (txt @ NUL # rest) = n"
proof -
  from ne obtain bl x where body: "body = bl @ [x]"
    by (metis append_butlast_last_id)
  have nth: "(body @ NUL # R) ! (length body - Suc 0) = last body"
    by (simp add: body nth_append)
  show ?thesis
  proof (cases "last body = newline")
    case True
    then show ?thesis using n by (simp add: txt_def nth Let_def)
  next
    case nl: False
    show ?thesis
    proof (cases "length body + 1 = n")
      case True
      have "length (body @ NUL # R) = length body + 1" using n True by simp
      then have R: "R = []" by simp
      have u1: "(body @ [NUL])[length body - Suc 0 := newline] = bl @ [newline, NUL]"
        by (simp add: body list_update_append)
      have u2: "(bl @ [newline, NUL])[Suc (length body - Suc 0) := NUL] = bl @ [newline, NUL]"
        by (simp add: body list_update_append)
      show ?thesis
        using nl True n
        by (simp add: txt_def nth Let_def R u1 u2) (simp add: body)
    next
      case False
      with n obtain y R' where R: "R = y # R'" by (cases R) auto
      have u1: "(body @ NUL # R)[length body := newline] = body @ newline # R"
        by (simp add: list_update_append)
      have u2: "(body @ newline # R)[Suc (length body) := NUL] = body @ newline # NUL # R'"
        by (simp add: list_update_append R)
      show ?thesis
        using nl False n
        by (simp add: txt_def nth Let_def u1 u2) (simp add: R)
    qed
  qed
qed


lemma syslog_vformat_line:
  assumes len: "length msgbuf = LOG_MAX_LEN" and lvl: "IS_SYSLOG_LEVEL level"
  shows "\<exists>rest. syslog_vformat msgbuf LOG_MAX_LEN level None (Some out) =
           (line_of level out @ NUL # rest, length (line_of level out)) \<and>
           length (line_of level out @ NUL # rest) = LOG_MAX_LEN"
proof -
  let ?body = "syslog_header level None @ take 1020 out"
  let ?R = "drop (Suc (length ?body)) msgbuf"
  have m: "length msgbuf = 1024" using len by (simp add: LOG_MAX_LEN_def)
  have ne: "?body \<noteq> []" by (simp add: syslog_header_def)
  have lb: "length ?body \<le> 1023" by (simp add: length_syslog_header)
  have n: "length (?body @ NUL # ?R) = 1024" using m lb by simp
  have tx: "(if last ?body = newline then ?body
              else if length ?body + 1 = 1024 then butlast ?body @ [newline]
              else ?body @ [newline]) = line_of level out"
    by (simp add: line_of_def Let_def)
  from terminate_line[OF ne n] show ?thesis
    unfolding tx LOG_MAX_LEN_def syslog_vformat_unfold[OF lvl] Let_def .
qed

lemma line_of_props:
  "line_of level out \<noteq> []" "last (line_of level out) = newline"
  "length (line_of level out) < LOG_MAX_LEN"
proof -
  let ?body = "syslog_header level None @ take 1020 out"
  have lb: "length ?body \<le> 1023" by (simp add: length_syslog_header)
  show "line_of level out \<noteq> []" by (simp add: line_of_def Let_def syslog_header_def)
  show "last (line_of level out) = newline" by (simp add: line_of_def Let_def)
  have "\<And>body. length body \<le> 1023 \<Longrightarrow>
          length (if last body = newline then body
                  else if length body = 1023 then butlast body @ [newline]
                  else body @ [newline]) < 1024"
    by auto
  from this[OF lb] show "length (line_of level out) < LOG_MAX_LEN"
    unfolding line_of_def Let_def LOG_MAX_LEN_def .
qed

lemma level_char_not_NUL:
  assumes "IS_SYSLOG_LEVEL level"
  shows "char_of (48 + level) \<noteq> NUL"
proof -
  from assms have r: "0 \<le> level" "level \<le> 7" by (simp_all add: IS_SYSLOG_LEVEL_def)
  then have "take_bit 8 (48 + level) = 48 + level"
    by (simp add: take_bit_int_eq_self)
  with r show ?thesis by (simp add: NUL_def char_of_eq_iff)
qed

lemma line_of_no_NUL:
  assumes "IS_SYSLOG_LEVEL level" "NUL \<notin> set out"
  shows "NUL \<notin> set (line_of level out)"
proof -
  have h: "NUL \<notin> set (syslog_header level None)"
    using level_char_not_NUL[OF assms(1)] by (auto simp: syslog_header_def NUL_def)
  have t: "NUL \<notin> set (take 1020 out)" using assms(2) by (auto dest: in_set_takeD)
  have n: "NUL \<noteq> newline" by (simp add: NUL_def newline_def)
  have b: "NUL \<notin> set (butlast (syslog_header level None @ take 1020 out))"
    using h t by (auto dest: in_set_butlastD)
  show ?thesis using h t n b by (auto simp: line_of_def Let_def)
qed

lemma c_string_bound: "length (c_string (txt @ NUL # rest)) \<le> length txt"
proof (cases "\<forall>c \<in> set txt. c \<noteq> NUL")
  case True
  then have "takeWhile (\<lambda>c. c \<noteq> NUL) (txt @ NUL # rest) = txt @ takeWhile (\<lambda>c. c \<noteq> NUL) (NUL # rest)"
    by (intro takeWhile_append2) simp
  then show ?thesis by (simp add: c_string_def)
next
  case False
  then obtain c where "c \<in> set txt" "\<not> c \<noteq> NUL" by blast
  then have "takeWhile (\<lambda>c. c \<noteq> NUL) (txt @ NUL # rest) = takeWhile (\<lambda>c. c \<noteq> NUL) txt"
    by (rule takeWhile_append1)
  then show ?thesis by (simp add: c_string_def length_takeWhile_le)
qed

lemma c_string_exact:
  assumes "NUL \<notin> set txt"
  shows "c_string (txt @ NUL # rest) = txt"
proof -
  from assms have "\<And>c. c \<in> set txt \<Longrightarrow> c \<noteq> NUL" by blast
  then have "takeWhile (\<lambda>c. c \<noteq> NUL) (txt @ NUL # rest) = txt @ takeWhile (\<lambda>c. c \<noteq> NUL) (NUL # rest)"
    by (rule takeWhile_append2)
  then show ?thesis by (simp add: c_string_def)
qed


lemma clamp_is_level: "IS_SYSLOG_LEVEL (if IS_SYSLOG_LEVEL level then level else LOG_DEBUG)"
  by (simp add: IS_SYSLOG_LEVEL_def LOG_DEBUG_def)

lemma Log_Some:
  assumes len: "length (message st) = LOG_MAX_LEN"
  shows "\<exists>rest.
    length (line_of (if IS_SYSLOG_LEVEL level then level else LOG_DEBUG) out @ NUL # rest) = LOG_MAX_LEN \<and>
    Log level (Some out) st =
      (Log_loop 0 (if IS_SYSLOG_LEVEL level then level else LOG_DEBUG) (consoles st)
         (line_of (if IS_SYSLOG_LEVEL level then level else LOG_DEBUG) out @ NUL # rest),
       st\<lparr>message := line_of (if IS_SYSLOG_LEVEL level then level else LOG_DEBUG) out @ NUL # rest\<rparr>)"
proof -
  let ?lvl = "if IS_SYSLOG_LEVEL level then level else LOG_DEBUG"
  from syslog_vformat_line[OF len clamp_is_level, of level out] obtain rest where
    v: "syslog_vformat (message st) LOG_MAX_LEN ?lvl None (Some out) =
          (line_of ?lvl out @ NUL # rest, length (line_of ?lvl out))"
    and l: "length (line_of ?lvl out @ NUL # rest) = LOG_MAX_LEN"
    by blast
  have ne: "length (line_of ?lvl out) \<noteq> 0" using line_of_props(1)[of ?lvl out] by simp
  have "Log level (Some out) st =
      (Log_loop 0 ?lvl (consoles st) (line_of ?lvl out @ NUL # rest),
       st\<lparr>message := line_of ?lvl out @ NUL # rest\<rparr>)"
  proof (cases "IS_SYSLOG_LEVEL level")
    case True
    with v ne show ?thesis by (simp add: Log_def Let_def)
  next
    case False
    with v ne show ?thesis by (simp add: Log_def Let_def)
  qed
  with l show ?thesis by blast
qed

lemma Log_None: "fst (Log level None st) = []"
proof -
  have z: "\<And>l. snd (syslog_vformat (message st) LOG_MAX_LEN l None None) = 0"
    by (simp add: syslog_vformat_def vsnprintf_def Let_def LOG_MAX_LEN_def
        SYSLOG_EMPTY_MSG_SIZE_def syslog_header_def store_def)
  show ?thesis
    by (cases "IS_SYSLOG_LEVEL level") (simp_all add: Log_def Let_def split_beta z)
qed

lemma count_calls_pair:
  assumes d: "notify a = notify b \<longrightarrow> notify a = NULL" and nn: "cb \<noteq> NULL"
  shows "count_list (map fst (Log_loop 0 lvl [a, b] msg)) cb =
           (if \<exists>i < CONSOLES_MAX_NR. notify ([a, b] ! i) = cb \<and> lvl \<le> maxlevel ([a, b] ! i)
            then 1 else 0)"
proof -
  have ex: "(\<exists>i < CONSOLES_MAX_NR. notify ([a, b] ! i) = cb \<and> lvl \<le> maxlevel ([a, b] ! i)) \<longleftrightarrow>
            (notify a = cb \<and> lvl \<le> maxlevel a) \<or> (notify b = cb \<and> lvl \<le> maxlevel b)"
    by (auto simp: less_consoles)
  show ?thesis
    unfolding ex using d nn by (auto simp: Log_loop_pair)
qed

lemma calls_pair:
  assumes "call \<in> set (Log_loop 0 lvl [a, b] msg)"
  shows "fst call \<noteq> NULL \<and> snd call = msg"
  using assms by (auto simp: Log_loop_pair split: if_splits)

text \<open>
  Claim C9, as the code has it. For a call of \<^verbatim>\<open>Log\<close> whose formatting succeeds (the
  text that the format and its arguments produce is \<open>out\<close>), with the severity taken
  as LOG_DEBUG when outside 0..7: the console of a slot is called exactly once when the
  slot is non-null and the severity is at most its maxlevel, and not at all otherwise.
  Every call is handed the message buffer, in which \<open>len < 1024\<close> bytes are followed by
  a NUL and the last of them is a newline. The string a callback reads there (the bytes
  before the first NUL) has at most \<open>len\<close> bytes; it is these \<open>len\<close> bytes, and so ends
  with the newline, when the formatted text holds no NUL byte. A failed formatting
  (an empty message) calls no console.
\<close>

theorem Log_calls_consoles_with_line:
  assumes "reachable (consoles st)" and "length (message st) = LOG_MAX_LEN"
  shows "\<exists>msg len.
     snd (Log level (Some out) st) = st\<lparr>message := msg\<rparr> \<and>
     0 < len \<and> len < LOG_MAX_LEN \<and> length msg = LOG_MAX_LEN \<and>
     msg ! len = NUL \<and> msg ! (len - 1) = newline \<and>
     length (c_string msg) \<le> len \<and>
     (NUL \<notin> set out \<longrightarrow> c_string msg = take len msg) \<and>
     (\<forall>call \<in> set (fst (Log level (Some out) st)). fst call \<noteq> NULL \<and> snd call = msg) \<and>
     (\<forall>cb. cb \<noteq> NULL \<longrightarrow>
        count_list (map fst (fst (Log level (Some out) st))) cb =
          (if \<exists>i < CONSOLES_MAX_NR. notify (consoles st ! i) = cb \<and>
                (if IS_SYSLOG_LEVEL level then level else LOG_DEBUG) \<le> maxlevel (consoles st ! i)
           then 1 else 0)) \<and>
     fst (Log level None st) = []"
proof -
  let ?lvl = "if IS_SYSLOG_LEVEL level then level else LOG_DEBUG"
  let ?line = "line_of ?lvl out"
  from reachable_table_ok[OF assms(1)] obtain a b where
    cs: "consoles st = [a, b]" and d: "notify a = notify b \<longrightarrow> notify a = NULL"
    by (auto simp: table_ok_def)
  from Log_Some[OF assms(2), of level out] obtain rest where
    l: "length (?line @ NUL # rest) = LOG_MAX_LEN" and
    L: "Log level (Some out) st =
          (Log_loop 0 ?lvl (consoles st) (?line @ NUL # rest), st\<lparr>message := ?line @ NUL # rest\<rparr>)"
    by blast
  let ?msg = "?line @ NUL # rest"
  have ne: "?line \<noteq> []" by (rule line_of_props(1))
  have p1: "snd (Log level (Some out) st) = st\<lparr>message := ?msg\<rparr>" by (simp add: L)
  have p2: "0 < length ?line" using ne by simp
  have p3: "length ?line < LOG_MAX_LEN" by (rule line_of_props(3))
  have p4: "?msg ! length ?line = NUL" by simp
  have p5: "?msg ! (length ?line - 1) = newline"
    using ne line_of_props(2)[of ?lvl out]
    by (simp add: nth_append last_conv_nth)
  have p6: "length (c_string ?msg) \<le> length ?line" by (rule c_string_bound)
  have p7: "NUL \<notin> set out \<longrightarrow> c_string ?msg = take (length ?line) ?msg"
    using line_of_no_NUL[OF clamp_is_level, of out level] by (simp add: c_string_exact)
  have p8: "\<forall>call \<in> set (fst (Log level (Some out) st)). fst call \<noteq> NULL \<and> snd call = ?msg"
    using calls_pair by (simp add: L cs)
  have p9: "\<forall>cb. cb \<noteq> NULL \<longrightarrow>
        count_list (map fst (fst (Log level (Some out) st))) cb =
          (if \<exists>i < CONSOLES_MAX_NR. notify (consoles st ! i) = cb \<and> ?lvl \<le> maxlevel (consoles st ! i)
           then 1 else 0)"
    using count_calls_pair[OF d] by (simp add: L cs)
  from p1 p2 p3 l p4 p5 p6 p7 p8 p9 Log_None[of level st] show ?thesis
    by (intro exI[of _ ?msg] exI[of _ "length ?line"]) blast
qed


lemma length_log_one: "length (message log_one) = LOG_MAX_LEN"
  by (simp add: log_one_def)

lemma reachable_log_one: "reachable (consoles log_one)"
  by (simp add: log_one_def reachable_one_console)

lemma level_char_6: "char_of (54 :: int) = CHR ''6''"
  by (simp add: char_of_eq_iff)

lemma line_of_hi: "line_of 6 ''hi'' = ''<6>hi'' @ [newline]"
  by (simp add: line_of_def syslog_header_def Let_def newline_def level_char_6)

lemma line_of_NUL: "line_of 6 [NUL] = ''<6>'' @ [NUL, newline]"
  by (simp add: line_of_def syslog_header_def Let_def newline_def NUL_def level_char_6)

theorem Log_calls_consoles_with_line_witness:
  "reachable (consoles log_one) \<and> length (message log_one) = LOG_MAX_LEN \<and>
   NUL \<notin> set ''hi'' \<and> (5::nat) \<noteq> NULL \<and>
   (\<exists>msg len.
      snd (Log LOG_INFO (Some ''hi'') log_one) = log_one\<lparr>message := msg\<rparr> \<and>
      len < LOG_MAX_LEN \<and> msg ! len = NUL \<and> msg ! (len - 1) = newline \<and>
      c_string msg = take len msg \<and>
      count_list (map fst (fst (Log LOG_INFO (Some ''hi'') log_one))) 5 = 1)"
proof -
  have n: "NUL \<notin> set ''hi''" by (simp add: NUL_def)
  have nn: "(5::nat) \<noteq> NULL" by (simp add: NULL_def)
  have ex: "\<exists>i < CONSOLES_MAX_NR. notify (consoles log_one ! i) = 5 \<and>
              (if IS_SYSLOG_LEVEL LOG_INFO then LOG_INFO else LOG_DEBUG) \<le> maxlevel (consoles log_one ! i)"
    by (intro exI[of _ 0])
       (simp add: log_one_def one_console_eq CONSOLES_MAX_NR_def LOG_INFO_def IS_SYSLOG_LEVEL_def)
  from Log_calls_consoles_with_line[OF reachable_log_one length_log_one, of LOG_INFO "''hi''"]
  obtain msg len where
    a: "snd (Log LOG_INFO (Some ''hi'') log_one) = log_one\<lparr>message := msg\<rparr>"
       "len < LOG_MAX_LEN" "msg ! len = NUL" "msg ! (len - 1) = newline"
    and b: "NUL \<notin> set ''hi'' \<longrightarrow> c_string msg = take len msg"
    and c: "\<forall>cb. cb \<noteq> NULL \<longrightarrow>
        count_list (map fst (fst (Log LOG_INFO (Some ''hi'') log_one))) cb =
          (if \<exists>i < CONSOLES_MAX_NR. notify (consoles log_one ! i) = cb \<and>
                (if IS_SYSLOG_LEVEL LOG_INFO then LOG_INFO else LOG_DEBUG) \<le> maxlevel (consoles log_one ! i)
           then 1 else 0)"
    by blast
  from b n have b': "c_string msg = take len msg" by blast
  from c nn ex have c': "count_list (map fst (fst (Log LOG_INFO (Some ''hi'') log_one))) 5 = 1"
    by simp
  from a b' c' have "\<exists>msg len.
      snd (Log LOG_INFO (Some ''hi'') log_one) = log_one\<lparr>message := msg\<rparr> \<and>
      len < LOG_MAX_LEN \<and> msg ! len = NUL \<and> msg ! (len - 1) = newline \<and>
      c_string msg = take len msg \<and>
      count_list (map fst (fst (Log LOG_INFO (Some ''hi'') log_one))) 5 = 1"
    by blast
  with reachable_log_one length_log_one n nn show ?thesis by blast
qed

text \<open>
  The claim as it was stated fails for a formatted text with a NUL byte, as
  \<^verbatim>\<open>Log(LOG_INFO, "%c", 0)\<close> produces: the console at address 5 is called, and the
  string it reads is \<^verbatim>\<open><6>\<close>, which does not end with a newline.
\<close>

theorem Log_embedded_NUL_counterexample:
  "map fst (fst (Log LOG_INFO (Some [NUL]) log_one)) = [5] \<and>
   map (c_string \<circ> snd) (fst (Log LOG_INFO (Some [NUL]) log_one)) = [''<6>''] \<and>
   last ''<6>'' \<noteq> newline"
proof -
  have lvl: "(if IS_SYSLOG_LEVEL LOG_INFO then LOG_INFO else LOG_DEBUG) = 6"
    by (simp add: IS_SYSLOG_LEVEL_def LOG_INFO_def)
  from Log_Some[OF length_log_one, of LOG_INFO "[NUL]"] obtain rest where
    L: "Log LOG_INFO (Some [NUL]) log_one =
          (Log_loop 0 6 (consoles log_one) (line_of 6 [NUL] @ NUL # rest),
           log_one\<lparr>message := line_of 6 [NUL] @ NUL # rest\<rparr>)"
    unfolding lvl by blast
  have calls: "fst (Log LOG_INFO (Some [NUL]) log_one) = [(5, line_of 6 [NUL] @ NUL # rest)]"
    by (subst L) (simp add: log_one_def one_console_eq Log_loop_pair NULL_def)
  have str: "c_string (line_of 6 [NUL] @ NUL # rest) = ''<6>''"
    unfolding line_of_NUL by (simp add: c_string_def NUL_def)
  show ?thesis
    by (simp add: calls str newline_def)
qed

section \<open>elf2efi: the relocation translator\<close>

lemma process_reloc_entry:
  assumes "process_reloc tbl amap base img sr = Inr f"
  shows "fx_entry f = entry_of tbl amap sr \<and> fx_section f = fst sr \<and>
         fx_offset f = rel_offset (snd sr) \<and>
         tbl (rel_type (snd sr)) \<noteq> None \<and>
         fx_width f = (case tbl (rel_type (snd sr)) of None \<Rightarrow> 0 | Some c \<Rightarrow> class_width c)"
proof (cases "tbl (rel_type (snd sr))")
  case None
  with assms show ?thesis by (simp add: process_reloc_def Let_def)
next
  case (Some c)
  with assms have "rel_symbol (snd sr) < length (symbols img)"
    by (simp add: process_reloc_def Let_def split: if_splits)
  with assms Some show ?thesis
    by (cases c) (auto simp: process_reloc_def Let_def entry_of_def)
qed

lemma process_all_Inr:
  assumes "process_all tbl amap base img srs = Inr fs"
  shows "length fs = length srs \<and>
         (\<forall>i < length srs. process_reloc tbl amap base img (srs ! i) = Inr (fs ! i))"
  using assms
proof (induction srs arbitrary: fs)
  case Nil
  then show ?case by simp
next
  case (Cons sr srs)
  from Cons.prems obtain f fs' where
    f: "process_reloc tbl amap base img sr = Inr f" and
    fs': "process_all tbl amap base img srs = Inr fs'" and
    fs: "fs = f # fs'"
    by (auto split: sum.splits)
  from Cons.IH[OF fs'] f fs show ?case
    by (auto simp: nth_Cons split: nat.splits)
qed

lemma process_all_entries:
  assumes "process_all tbl amap base img srs = Inr fs"
  shows "map fx_entry fs = map (entry_of tbl amap) srs"
proof (rule nth_equalityI)
  from process_all_Inr[OF assms] show "length (map fx_entry fs) = length (map (entry_of tbl amap) srs)"
    by simp
next
  fix i assume "i < length (map fx_entry fs)"
  with process_all_Inr[OF assms] show "map fx_entry fs ! i = map (entry_of tbl amap) srs ! i"
    by (auto dest: process_reloc_entry)
qed











lemma group_pages_entries: "concat (map block_entries (group_pages es)) = es"
proof (induction es)
  case Nil
  then show ?case by simp
next
  case (Cons e es)
  obtain a k where e: "e = (a, k)" by (cases e)
  show ?case
  proof (cases "group_pages es")
    case Nil
    with Cons.IH have "es = []" by simp
    with Nil show ?thesis by (simp add: e Let_def block_entries_def)
  next
    case gp: (Cons b bs)
    with Cons.IH have ih: "block_entries b @ concat (map block_entries bs) = es" by simp
    show ?thesis
    proof (cases "page_rva b = a - a mod PAGE_SIZE")
      case True
      have "block_entries (b\<lparr>entries := (a mod PAGE_SIZE, k) # entries b\<rparr>) =
              (a, k) # block_entries b"
        by (simp add: block_entries_def True)
      with gp True ih show ?thesis by (simp add: e Let_def)
    next
      case False
      have "block_entries \<lparr>page_rva = a - a mod PAGE_SIZE, entries = [(a mod PAGE_SIZE, k)]\<rparr> =
              [(a, k)]"
        by (simp add: block_entries_def)
      with gp False ih show ?thesis by (simp add: e Let_def)
    qed
  qed
qed

lemma group_pages_count: "sum_list (map (\<lambda>b. length (entries b)) (group_pages es)) = length es"
proof -
  have "length (concat (map block_entries (group_pages es))) = length es"
    by (simp add: group_pages_entries)
  then show ?thesis
    by (simp add: length_concat block_entries_def comp_def)
qed



lemma runtime_entries_map_filter:
  "concat (map (\<lambda>x. case f x of None \<Rightarrow> [] | Some e \<Rightarrow> [e]) xs) = List.map_filter f xs"
  by (induction xs) (auto simp: map_filter_simps split: option.splits)

lemma runtime_entries_eq:
  assumes "process_all tbl amap base img srs = Inr fs"
  shows "runtime_entries fs = List.map_filter (entry_of tbl amap) srs"
proof -
  have "runtime_entries fs =
          concat (map (\<lambda>x. case x of None \<Rightarrow> [] | Some e \<Rightarrow> [e]) (map fx_entry fs))"
    by (simp add: runtime_entries_def comp_def)
  also have "\<dots> = concat (map (\<lambda>x. case x of None \<Rightarrow> [] | Some e \<Rightarrow> [e]) (map (entry_of tbl amap) srs))"
    by (simp only: process_all_entries[OF assms])
  also have "\<dots> = List.map_filter (entry_of tbl amap) srs"
    by (simp add: runtime_entries_map_filter[symmetric] comp_def)
  finally show ?thesis .
qed

lemma entry_of_is_absolute: "entry_of tbl amap sr \<noteq> None \<longleftrightarrow> is_absolute tbl sr"
  by (auto simp: entry_of_def is_absolute_def split: option.splits reloc_class.splits)

lemma is_absolute_iff: "is_absolute tbl sr \<longleftrightarrow> (\<exists>k. tbl (rel_type (snd sr)) = Some (Absolute k))"
  by (auto simp: is_absolute_def split: option.splits reloc_class.splits)

lemma length_map_filter_entries:
  "length (List.map_filter (entry_of tbl amap) srs) = length (filter (is_absolute tbl) srs)"
proof -
  have "(\<lambda>x. entry_of tbl amap x \<noteq> None) = is_absolute tbl"
    by (rule ext) (rule entry_of_is_absolute)
  then show ?thesis by (simp only: map_filter_def length_map)
qed

lemma translate_Inr:
  assumes "translate tbl amap base img = Inr t"
  shows "\<exists>fs. process_all tbl amap base img (all_relocs img) = Inr fs \<and> \<not> has_overlap fs \<and>
           t_folded t = fs \<and>
           t_blocks t = group_pages (sort_key fst (List.map_filter (entry_of tbl amap) (all_relocs img)))"
proof -
  from assms obtain fs where fs: "process_all tbl amap base img (all_relocs img) = Inr fs"
    by (auto simp: translate_def split: sum.splits)
  with assms have "\<not> has_overlap fs" "t = \<lparr>t_folded = fs,
                    t_blocks = group_pages (sort_key fst (runtime_entries fs))\<rparr>"
    by (auto simp: translate_def split: if_splits)
  with fs runtime_entries_eq[OF fs] show ?thesis by simp
qed

text \<open>
  Claim C1. In a successful translation the runtime entries of all blocks are, one for
  one, the entries that the source relocations of absolute-address kind require (each at
  the RVA of its fixup, with the kind of the table): a relocation has an entry exactly
  when the table makes its type an absolute address, a PC-relative or a static one has
  none. So the number of entries over all blocks is the number of source relocations of
  absolute-address kind.
\<close>

theorem runtime_entries_are_absolute_relocations:
  assumes "translate tbl amap base img = Inr t"
  shows "mset (concat (map block_entries (t_blocks t))) =
           mset (List.map_filter (entry_of tbl amap) (all_relocs img)) \<and>
         sum_list (map (\<lambda>b. length (entries b)) (t_blocks t)) =
           length (filter (is_absolute tbl) (all_relocs img)) \<and>
         (\<forall>sr \<in> set (all_relocs img).
            (entry_of tbl amap sr \<noteq> None) = (\<exists>k. tbl (rel_type (snd sr)) = Some (Absolute k)) \<and>
            ((\<exists>w. tbl (rel_type (snd sr)) = Some (PcRelative w) \<or>
                  tbl (rel_type (snd sr)) = Some (Static w)) \<longrightarrow> entry_of tbl amap sr = None))"
proof -
  from translate_Inr[OF assms] have
    b: "t_blocks t = group_pages (sort_key fst (List.map_filter (entry_of tbl amap) (all_relocs img)))"
    by blast
  have "mset (concat (map block_entries (t_blocks t))) =
           mset (List.map_filter (entry_of tbl amap) (all_relocs img))"
    by (simp add: b group_pages_entries)
  moreover have "sum_list (map (\<lambda>b. length (entries b)) (t_blocks t)) =
           length (filter (is_absolute tbl) (all_relocs img))"
    by (simp add: b group_pages_count length_map_filter_entries)
  moreover have "\<forall>sr \<in> set (all_relocs img).
            (entry_of tbl amap sr \<noteq> None) = (\<exists>k. tbl (rel_type (snd sr)) = Some (Absolute k)) \<and>
            ((\<exists>w. tbl (rel_type (snd sr)) = Some (PcRelative w) \<or>
                  tbl (rel_type (snd sr)) = Some (Static w)) \<longrightarrow> entry_of tbl amap sr = None)"
  proof
    fix sr assume "sr \<in> set (all_relocs img)"
    have "(entry_of tbl amap sr \<noteq> None) = (\<exists>k. tbl (rel_type (snd sr)) = Some (Absolute k))"
      by (simp only: entry_of_is_absolute is_absolute_iff)
    moreover have "(\<exists>w. tbl (rel_type (snd sr)) = Some (PcRelative w) \<or>
                  tbl (rel_type (snd sr)) = Some (Static w)) \<longrightarrow> entry_of tbl amap sr = None"
      by (auto simp: entry_of_def)
    ultimately show "(entry_of tbl amap sr \<noteq> None) = (\<exists>k. tbl (rel_type (snd sr)) = Some (Absolute k)) \<and>
            ((\<exists>w. tbl (rel_type (snd sr)) = Some (PcRelative w) \<or>
                  tbl (rel_type (snd sr)) = Some (Static w)) \<longrightarrow> entry_of tbl amap sr = None)"
      by blast
  qed
  ultimately show ?thesis by blast
qed

lemma translate_mixed:
  "translate scenario_table scenario_map 0 mixed_image =
     Inr \<lparr>t_folded =
            [\<lparr>fx_section = 0, fx_offset = 0x10, fx_width = 8, fx_value = 0x1050,
               fx_entry = Some (0x1010, Rebase64)\<rparr>,
             \<lparr>fx_section = 0, fx_offset = 0x20, fx_width = 4, fx_value = 0x30,
               fx_entry = None\<rparr>,
             \<lparr>fx_section = 0, fx_offset = 0x8, fx_width = 8, fx_value = 0x1050,
               fx_entry = Some (0x1008, Rebase64)\<rparr>],
          t_blocks = [\<lparr>page_rva = 0x1000, entries = [(0x8, Rebase64), (0x10, Rebase64)]\<rparr>]\<rparr>"
  by code_simp

lemma all_relocs_mixed:
  "all_relocs mixed_image = [(0, reloc_at 0x10 1), (0, reloc_at 0x20 2), (0, reloc_at 0x8 1)]"
  by code_simp

theorem runtime_entries_are_absolute_relocations_witness:
  "translate scenario_table scenario_map 0 mixed_image =
     Inr \<lparr>t_folded =
            [\<lparr>fx_section = 0, fx_offset = 0x10, fx_width = 8, fx_value = 0x1050,
               fx_entry = Some (0x1010, Rebase64)\<rparr>,
             \<lparr>fx_section = 0, fx_offset = 0x20, fx_width = 4, fx_value = 0x30,
               fx_entry = None\<rparr>,
             \<lparr>fx_section = 0, fx_offset = 0x8, fx_width = 8, fx_value = 0x1050,
               fx_entry = Some (0x1008, Rebase64)\<rparr>],
          t_blocks = [\<lparr>page_rva = 0x1000, entries = [(0x8, Rebase64), (0x10, Rebase64)]\<rparr>]\<rparr> \<and>
   length (all_relocs mixed_image) = 3 \<and>
   length (filter (is_absolute scenario_table) (all_relocs mixed_image)) = 2 \<and>
   sum_list (map (\<lambda>b. length (entries b))
     [\<lparr>page_rva = 0x1000, entries = [(0x8, Rebase64), (0x10, Rebase64)]\<rparr>]) = 2 \<and>
   entry_of scenario_table scenario_map (0, reloc_at 0x20 2) = None"
proof -
  note t = runtime_entries_are_absolute_relocations[OF translate_mixed]
  from t have n: "sum_list (map (\<lambda>b. length (entries b))
     [\<lparr>page_rva = 0x1000, entries = [(0x8, Rebase64), (0x10, Rebase64)]\<rparr>]) =
       length (filter (is_absolute scenario_table) (all_relocs mixed_image))"
    by simp
  have m: "(0, reloc_at 0x20 2) \<in> set (all_relocs mixed_image)"
    by (simp add: all_relocs_mixed)
  have pc: "scenario_table (rel_type (snd (0::nat, reloc_at 0x20 2))) = Some (PcRelative 4)"
    by (simp add: scenario_table_def reloc_at_def)
  from t m pc have e: "entry_of scenario_table scenario_map (0, reloc_at 0x20 2) = None"
    by blast
  from n have n2: "length (filter (is_absolute scenario_table) (all_relocs mixed_image)) = 2"
    by simp
  show ?thesis
    using translate_mixed n2 e by (simp add: all_relocs_mixed)
qed


















end
